theory Spec2Isabelle
  imports Complex_Main "HOL-Library.AList"
begin

section \<open>Errors\<close>

text \<open>
  The Python exceptions that the modelled code can raise. A function that can raise
  returns \<open>error + 'a\<close>, with \<open>Inl\<close> for the exception.
\<close>

datatype error = ZeroDivisionError | KeyError | ValueError | RuntimeError | OverflowError

definition bind_err :: "error + 'a \<Rightarrow> ('a \<Rightarrow> error + 'b) \<Rightarrow> error + 'b" where
  "bind_err r f = (case r of Inl e \<Rightarrow> Inl e | Inr x \<Rightarrow> f x)"

section \<open>model.py: find_multiple\<close>

text \<open>
  \<^verbatim>\<open>
  def find_multiple(n: int, k: int) -> int:
      if n % k == 0:
          return n
      return n + k - (n % k)
  \<close>
  Python's \<open>%\<close> on integers takes the sign of the divisor, as \<open>mod\<close> on \<open>int\<close> does,
  and raises ZeroDivisionError for \<open>k = 0\<close>.
\<close>

definition find_multiple :: "int \<Rightarrow> int \<Rightarrow> error + int" where
  "find_multiple n k =
     (if k = 0 then Inl ZeroDivisionError
      else if n mod k = 0 then Inr n
      else Inr (n + k - n mod k))"

section \<open>model.py: ModelArgs\<close>

text \<open>
  The dataclass \<open>ModelArgs\<close>. The two float fields and the optional scaling dictionary
  are only stored, so their types are parameters. \<open>intermediate_size\<close> defaults to
  \<open>None\<close>.
\<close>

record ('f, 's) ModelArgs =
  block_size :: int
  vocab_size :: int
  n_layer :: int
  n_head :: int
  dim :: int
  intermediate_size :: "int option"
  n_local_heads :: int
  head_dim :: int
  rope_base :: 'f
  norm_eps :: 'f
  attention_bias :: bool
  max_length :: int
  rope_scaling :: "'s option"

text \<open>
  \<^verbatim>\<open>
  def __post_init__(self):
      if self.n_local_heads == -1:
          self.n_local_heads = self.n_head
      if self.intermediate_size is None:
          hidden_dim = 4 * self.dim
          n_hidden = int(2 * hidden_dim / 3)
          self.intermediate_size = find_multiple(n_hidden, 256)
      self.head_dim = self.dim // self.n_head
  \<close>
  \<open>int(a / 3)\<close> is a float division followed by a truncation; it is the parameter
  \<open>int_true_div\<close> (it raises OverflowError when \<open>a\<close> is too large for a float).
  \<open>//\<close> on integers is floor division, as \<open>div\<close> on \<open>int\<close>, and raises
  ZeroDivisionError for a zero divisor.
\<close>

definition set_intermediate_size ::
  "(int \<Rightarrow> int \<Rightarrow> error + int) \<Rightarrow> ('f, 's) ModelArgs \<Rightarrow> error + ('f, 's) ModelArgs" where
  "set_intermediate_size int_true_div a =
     (case intermediate_size a of
        Some _ \<Rightarrow> Inr a
      | None \<Rightarrow>
          (let hidden_dim = 4 * dim a in
           bind_err (int_true_div (2 * hidden_dim) 3) (\<lambda>n_hidden.
           bind_err (find_multiple n_hidden 256) (\<lambda>m.
           Inr (a\<lparr>intermediate_size := Some m\<rparr>)))))"

definition post_init ::
  "(int \<Rightarrow> int \<Rightarrow> error + int) \<Rightarrow> ('f, 's) ModelArgs \<Rightarrow> error + ('f, 's) ModelArgs" where
  "post_init int_true_div a =
     (let a1 = (if n_local_heads a = - 1 then a\<lparr>n_local_heads := n_head a\<rparr> else a) in
      bind_err (set_intermediate_size int_true_div a1) (\<lambda>a2.
      if n_head a2 = 0 then Inl ZeroDivisionError
      else Inr (a2\<lparr>head_dim := dim a2 div n_head a2\<rparr>)))"

text \<open>
  \<open>int(a / b)\<close> for operands that a float represents exactly enough: the quotient
  truncated towards zero. Used to run \<open>post_init\<close> on concrete arguments.
\<close>

definition trunc_div :: "int \<Rightarrow> int \<Rightarrow> error + int" where
  "trunc_div a b =
     (if b = 0 then Inl ZeroDivisionError
      else Inr (sgn a * sgn b * (\<bar>a\<bar> div \<bar>b\<bar>)))"

definition stories15M :: "(int, unit) ModelArgs" where
  "stories15M = \<lparr>block_size = 4000, vocab_size = 32000, n_layer = 6, n_head = 6, dim = 288,
     intermediate_size = None, n_local_heads = - 1, head_dim = 64, rope_base = 10000,
     norm_eps = 0, attention_bias = False, max_length = 4096, rope_scaling = None\<rparr>"

section \<open>model.py: the per-layer cache as the Transformer sees it\<close>

text \<open>
  \<open>layer.attention.kv_cache\<close> is an object of a class of cache.py. model.py reads its
  attribute \<open>max_cache_length\<close> and calls its methods; everything else the object holds
  (slots, validity mask, policy state) is the component \<open>contents\<close>, whose type is a
  parameter. The state of a \<open>Transformer\<close> that the modelled methods touch is the list of
  its layers' caches, in layer order.
\<close>

record 'st kv_cache =
  max_cache_length :: int
  contents :: 'st

text \<open>
  \<^verbatim>\<open>
  def prompt_cache_overflow(self, prompt_length: int):
      return [
          prompt_length > layer.attention.kv_cache.max_cache_length
          for layer in self.layers
      ]
  \<close>
  Methods of the Transformer are written in state-passing style: they return their
  result together with the list of caches they leave behind.
\<close>

definition prompt_cache_overflow ::
  "'st kv_cache list \<Rightarrow> int \<Rightarrow> bool list \<times> 'st kv_cache list" where
  "prompt_cache_overflow layers prompt_length =
     (map (\<lambda>c. prompt_length > max_cache_length c) layers, layers)"

section \<open>model.py: Transformer.get_cache_stats\<close>

text \<open>
  A Python \<open>dict\<close> with string keys is an association list in insertion order;
  \<open>d[k] = v\<close> is \<open>AList.update\<close> (it replaces in place or appends). The values of the
  statistics are Python numbers, of a parameter type \<open>'n\<close>.
\<close>

type_synonym 'n stat_dict = "(string \<times> 'n) list"

text \<open>
  The arithmetic that \<open>get_cache_stats\<close> does on the values is floating point, and is
  a parameter: \<open>py_zero\<close> is the \<open>0\<close> that \<open>mem_total\<close> starts from, \<open>py_add\<close> is
  \<open>+\<close>, \<open>py_sum\<close> is the builtin \<open>sum\<close> and \<open>py_truediv x n\<close> is \<open>x / n\<close>
  for a length \<open>n\<close>. Nothing is assumed of them: neither that addition is associative
  nor that \<open>sum\<close> adds from left to right.
\<close>

record 'n arithmetic =
  py_zero :: 'n
  py_add :: "'n \<Rightarrow> 'n \<Rightarrow> 'n"
  py_sum :: "'n list \<Rightarrow> 'n"
  py_truediv :: "'n \<Rightarrow> nat \<Rightarrow> 'n"

text \<open>\<open>stat.pop(k)\<close>: the value and the dictionary without the key, or KeyError.\<close>

definition pop :: "'n stat_dict \<Rightarrow> string \<Rightarrow> error + ('n \<times> 'n stat_dict)" where
  "pop d k = (case map_of d k of None \<Rightarrow> Inl KeyError | Some v \<Rightarrow> Inr (v, AList.delete k d))"

text \<open>
  \<open>torch.tensor(n)\<close> of a Python integer is a 64-bit integer tensor; the conversion
  raises RuntimeError for an integer outside the 64-bit range.
\<close>

definition torch_tensor :: "int \<Rightarrow> error + int" where
  "torch_tensor n = (if - (2 ^ 63) \<le> n \<and> n < 2 ^ 63 then Inr n else Inl RuntimeError)"

text \<open>\<open>str(i)\<close> of a layer index: its decimal digits.\<close>

definition digit_char :: "nat \<Rightarrow> char" where
  "digit_char d = ''0123456789'' ! d"

fun str_of_nat :: "nat \<Rightarrow> string" where
  "str_of_nat n =
     (if n < 10 then [digit_char n] else str_of_nat (n div 10) @ [digit_char (n mod 10)])"

declare str_of_nat.simps [simp del]

text \<open>The keys \<open>f"{k}_{layer_idx}"\<close> and \<open>f"{k}_avg"\<close>.\<close>

definition layer_key :: "string \<Rightarrow> nat \<Rightarrow> string" where
  "layer_key k layer_idx = k @ ''_'' @ str_of_nat layer_idx"

definition avg_key :: "string \<Rightarrow> string" where
  "avg_key k = k @ ''_avg''"

text \<open>
  \<open>compute_statistics\<close> is a method of the cache classes of cache.py and a parameter
  here. \<open>compute_statistics layers layer_idx seq_len\<close> is the call on the cache of
  layer \<open>layer_idx\<close> when the caches are \<open>layers\<close>: it raises, or it returns the content
  of the dictionary it hands out and the caches as the call leaves them. The
  dictionary is an object that the cache may keep: \<open>stat.pop\<close> in \<open>get_cache_stats\<close>
  removes a key from that very object, and \<open>on_pop layers layer_idx\<close> is the caches
  after that removal (they are the same when no cache holds the dictionary). Nothing is
  assumed of either parameter.
\<close>

record ('st, 'n) statistics_calls =
  compute_statistics :: "'st kv_cache list \<Rightarrow> nat \<Rightarrow> int \<Rightarrow> error + ('n stat_dict \<times> 'st kv_cache list)"
  on_pop :: "'st kv_cache list \<Rightarrow> nat \<Rightarrow> 'st kv_cache list"

text \<open>
  \<^verbatim>\<open>
  def get_cache_stats(self, prompt_len, gen_len):
      stats = {}
      final_seq_len = prompt_len + gen_len
      avgs = defaultdict(list)
      mem_total = 0
      for layer_idx, layer in enumerate(self.layers):
          stat = layer.attention.kv_cache.compute_statistics(
              seq_len=torch.tensor(final_seq_len)
          )
          mem_total += stat.pop("cache_memory_gb")
          for k, v in stat.items():
              stats[f"{k}_{layer_idx}"] = v
              avgs[k].append(v)

      for k, v in avgs.items():
          stats[f"{k}_avg"] = sum(v) / len(v)

      stats["cache_memory_gb"] = mem_total
      return stats
  \<close>
  \<open>avgs\<close> is a \<open>defaultdict(list)\<close>: a missing key reads as the empty list.
\<close>

type_synonym 'n avgs_dict = "(string \<times> 'n list) list"

definition get_default :: "'n avgs_dict \<Rightarrow> string \<Rightarrow> 'n list" where
  "get_default avgs k = (case map_of avgs k of None \<Rightarrow> [] | Some vs \<Rightarrow> vs)"

text \<open>The inner loop, over \<open>stat.items()\<close>.\<close>

fun add_items ::
  "nat \<Rightarrow> 'n stat_dict \<Rightarrow> 'n stat_dict \<times> 'n avgs_dict \<Rightarrow> 'n stat_dict \<times> 'n avgs_dict" where
  "add_items layer_idx [] (stats, avgs) = (stats, avgs)"
| "add_items layer_idx ((k, v) # items) (stats, avgs) =
     add_items layer_idx items
       (AList.update (layer_key k layer_idx) v stats,
        AList.update k (get_default avgs k @ [v]) avgs)"

text \<open>
  The loop over the layers, from index \<open>layer_idx\<close> on, with \<open>remaining\<close> layers to
  go. It returns the three accumulators and the caches as the loop leaves them, or the
  exception of \<open>torch.tensor\<close>, of \<open>compute_statistics\<close> or of \<open>pop\<close>.
\<close>

fun stats_loop ::
  "('st, 'n) statistics_calls \<Rightarrow> 'n arithmetic \<Rightarrow> int \<Rightarrow> nat \<Rightarrow> nat \<Rightarrow> 'st kv_cache list
     \<Rightarrow> 'n stat_dict \<times> 'n avgs_dict \<times> 'n
     \<Rightarrow> error + (('n stat_dict \<times> 'n avgs_dict \<times> 'n) \<times> 'st kv_cache list)" where
  "stats_loop calls ar final_seq_len layer_idx 0 layers acc = Inr (acc, layers)"
| "stats_loop calls ar final_seq_len layer_idx (Suc remaining) layers (stats, avgs, mem_total) =
     (case torch_tensor final_seq_len of
        Inl e \<Rightarrow> Inl e
      | Inr seq_len \<Rightarrow>
         (case compute_statistics calls layers layer_idx seq_len of
            Inl e \<Rightarrow> Inl e
          | Inr (stat, layers1) \<Rightarrow>
             (case pop stat ''cache_memory_gb'' of
                Inl e \<Rightarrow> Inl e
              | Inr (mem, stat') \<Rightarrow>
                 (let layers2 = on_pop calls layers1 layer_idx;
                      (stats', avgs') = add_items layer_idx stat' (stats, avgs)
                  in stats_loop calls ar final_seq_len (Suc layer_idx) remaining layers2
                       (stats', avgs', py_add ar mem_total mem)))))"

text \<open>The loop over \<open>avgs.items()\<close>; \<open>sum(v) / len(v)\<close> raises for an empty list.\<close>

fun add_avgs :: "'n arithmetic \<Rightarrow> 'n avgs_dict \<Rightarrow> 'n stat_dict \<Rightarrow> error + 'n stat_dict" where
  "add_avgs ar [] stats = Inr stats"
| "add_avgs ar ((k, v) # rest) stats =
     (if length v = 0 then Inl ZeroDivisionError
      else add_avgs ar rest
             (AList.update (avg_key k) (py_truediv ar (py_sum ar v) (length v)) stats))"

definition get_cache_stats ::
  "('st, 'n) statistics_calls \<Rightarrow> 'n arithmetic \<Rightarrow> 'st kv_cache list \<Rightarrow> int \<Rightarrow> int
     \<Rightarrow> error + ('n stat_dict \<times> 'st kv_cache list)" where
  "get_cache_stats calls ar layers prompt_len gen_len =
     (let final_seq_len = prompt_len + gen_len in
      bind_err (stats_loop calls ar final_seq_len 0 (length layers) layers ([], [], py_zero ar))
        (\<lambda>((stats, avgs, mem_total), layers').
      bind_err (add_avgs ar avgs stats) (\<lambda>stats'.
      Inr (AList.update ''cache_memory_gb'' mem_total stats', layers'))))"

text \<open>
  A model of two layers, each reporting its memory and one more statistic, in
  dictionaries that the caches do not keep. The values are dyadic rationals, on which
  the floating-point operations of Python are exact, so the arithmetic on them is the
  exact one.
\<close>

definition two_layers :: "unit kv_cache list" where
  "two_layers = [\<lparr>max_cache_length = 4, contents = ()\<rparr>, \<lparr>max_cache_length = 8, contents = ()\<rparr>]"

definition report2 :: "unit kv_cache \<Rightarrow> int \<Rightarrow> rat stat_dict" where
  "report2 c seq_len =
     [(''compression_ratio'', of_int (max_cache_length c) / 16),
      (''cache_memory_gb'', of_int (max_cache_length c) / 4)]"

definition two_layers_calls :: "(unit, rat) statistics_calls" where
  "two_layers_calls =
     \<lparr>compute_statistics = (\<lambda>layers layer_idx seq_len. Inr (report2 (layers ! layer_idx) seq_len, layers)),
      on_pop = (\<lambda>layers layer_idx. layers)\<rparr>"

definition exact_arithmetic :: "rat arithmetic" where
  "exact_arithmetic =
     \<lparr>py_zero = 0, py_add = (+), py_sum = sum_list, py_truediv = (\<lambda>x n. x / of_nat n)\<rparr>"

section \<open>model.py: Attention\<close>

text \<open>
  Tensors whose layout the code manipulates are lists: the outer list is the batch
  dimension, the inner one the head dimension (dimension 1), and an element is the slice
  of one head. For keys, values and queries the slice is of a parameter type \<open>'t\<close>; for
  a boolean mask it is a matrix of booleans (query positions by cache slots). Dense
  activations (\<open>x\<close>, \<open>freqs_cis\<close>, the output) are of type \<open>'x\<close>, attention weights
  of type \<open>'w\<close>, \<open>input_ids\<close> of type \<open>'i\<close> and \<open>attn_top_k\<close> of type \<open>'r\<close>.
\<close>

type_synonym 'a heads = "'a list list"

type_synonym bool_mask = "bool list list heads"




text \<open>
  The calls that \<open>Attention.forward\<close> makes to its collaborators, with their arguments.
  The model returns them in the order in which the code makes them.
\<close>

datatype ('t, 'w, 'i, 'r) call =
    Update_kv "int list" "'t heads" "'t heads" bool 'i
  | Scaled_dot_product_attention "'t heads" "'t heads" "'t heads" "bool_mask option" 'r bool
  | Prompt_compressor "int list" "'t heads" "'t heads" "'w option"
  | Update_state "int list" "'t heads" "'t heads" bool "'w option" 'i

type_synonym ('t, 'w) compressor =
  "int list \<Rightarrow> 't heads \<Rightarrow> 't heads \<Rightarrow> 'w option \<Rightarrow> int list \<times> 't heads \<times> 't heads \<times> 'w option"

text \<open>
  \<^verbatim>\<open>
  def compress_prompt(self, input_pos, k_val, v_val, attn):
      seq_len = input_pos.shape[0]
      if self.kv_cache.max_cache_length < seq_len:
          kwargs = {"attn": attn}
          return self.prompt_compressor(input_pos, k_val, v_val, **kwargs)

      return input_pos, k_val, v_val, attn
  \<close>
  \<open>input_pos\<close> is a one-dimensional tensor of positions, a list here. The prompt
  compressor is a callable of prompt_compression.py and a parameter here.
\<close>

definition compress_prompt ::
  "('t, 'w) compressor \<Rightarrow> 'st kv_cache \<Rightarrow> int list \<Rightarrow> 't heads \<Rightarrow> 't heads \<Rightarrow> 'w option
     \<Rightarrow> (int list \<times> 't heads \<times> 't heads \<times> 'w option) \<times> ('t, 'w, 'i, 'r) call list" where
  "compress_prompt prompt_compressor kv_cache input_pos k_val v_val attn =
     (let seq_len = int (length input_pos) in
      if max_cache_length kv_cache < seq_len
      then (prompt_compressor input_pos k_val v_val attn,
            [Prompt_compressor input_pos k_val v_val attn])
      else ((input_pos, k_val, v_val, attn), []))"








definition keep_last2 :: "(nat, nat) compressor" where
  "keep_last2 input_pos k v attn = (drop (length input_pos - 2) input_pos, k, v, attn)"


definition demo_cache :: "int list kv_cache" where
  "demo_cache = \<lparr>max_cache_length = 2, contents = []\<rparr>"

section \<open>Notions used to state the properties of get_cache_stats\<close>

text \<open>
  \<open>returned_stats\<close> lists the dictionaries that the calls of \<open>compute_statistics\<close>
  return in the course of the loop, each as it is when its call returns; the list
  stops at a call that raises and after a dictionary without the key
  \<open>cache_memory_gb\<close>, where the loop stops. A returned dictionary is well formed when
  it holds no key twice and holds \<open>cache_memory_gb\<close>. \<open>per_layer_values\<close> lists, in
  layer order, the values that the returned dictionaries hold for a statistic, and
  \<open>memory_of\<close> is the memory figure of one of them.
\<close>

fun returned_stats ::
  "('st, 'n) statistics_calls \<Rightarrow> int \<Rightarrow> nat \<Rightarrow> nat \<Rightarrow> 'st kv_cache list \<Rightarrow> 'n stat_dict list" where
  "returned_stats calls seq_len layer_idx 0 layers = []"
| "returned_stats calls seq_len layer_idx (Suc remaining) layers =
     (case compute_statistics calls layers layer_idx seq_len of
        Inl e \<Rightarrow> []
      | Inr (stat, layers1) \<Rightarrow>
          stat # (if ''cache_memory_gb'' \<in> fst ` set stat
                  then returned_stats calls seq_len (Suc layer_idx) remaining
                         (on_pop calls layers1 layer_idx)
                  else []))"

definition well_formed_stat :: "'n stat_dict \<Rightarrow> bool" where
  "well_formed_stat stat \<longleftrightarrow>
     distinct (map fst stat) \<and> ''cache_memory_gb'' \<in> fst ` set stat"

definition per_layer_values :: "string \<Rightarrow> 'n stat_dict list \<Rightarrow> 'n list" where
  "per_layer_values k returned =
     concat (map (\<lambda>stat. case map_of stat k of None \<Rightarrow> [] | Some v \<Rightarrow> [v]) returned)"

definition memory_of :: "'n arithmetic \<Rightarrow> 'n stat_dict \<Rightarrow> 'n" where
  "memory_of ar stat =
     (case map_of stat ''cache_memory_gb'' of None \<Rightarrow> py_zero ar | Some m \<Rightarrow> m)"

definition item_values :: "'n stat_dict \<Rightarrow> string \<Rightarrow> 'n list" where
  "item_values items k = (case map_of items k of None \<Rightarrow> [] | Some v \<Rightarrow> [v])"

definition loop_values :: "string \<Rightarrow> 'n stat_dict list \<Rightarrow> 'n list" where
  "loop_values k returned =
     concat (map (\<lambda>stat. item_values (AList.delete ''cache_memory_gb'' stat) k) returned)"

definition avgs_ok :: "'n avgs_dict \<Rightarrow> bool" where
  "avgs_ok avgs \<longleftrightarrow> distinct (map fst avgs) \<and> [] \<notin> snd ` set avgs"

section \<open>Properties of find_multiple\<close>

lemma find_multiple_value:
  assumes "0 < k"
  shows "find_multiple n k = Inr (if k dvd n then n else (n div k + 1) * k)"
proof -
  have "n + k - n mod k = (n div k + 1) * k"
    using div_mult_mod_eq [of n k] by (simp add: algebra_simps)
  with assms show ?thesis
    by (simp add: find_multiple_def dvd_eq_mod_eq_0)
qed

lemma multiple_above:
  fixes k :: int
  assumes k: "0 < k" and dv: "k dvd j" and le: "n \<le> j" and nd: "\<not> k dvd n"
  shows "(n div k + 1) * k \<le> j"
proof -
  from dv obtain c where c: "j = k * c" by (auto simp: dvd_def)
  have "n div k * k < n"
  proof -
    have "n mod k \<noteq> 0" using nd by (simp add: dvd_eq_mod_eq_0)
    moreover have "0 \<le> n mod k" using k by simp
    ultimately have "0 < n mod k" by linarith
    then show ?thesis using div_mult_mod_eq [of n k] by linarith
  qed
  with le c have "n div k * k < c * k" by (simp add: mult.commute)
  with k have "n div k < c" by (simp add: mult_less_cancel_right)
  then have "n div k + 1 \<le> c" by simp
  with k have "(n div k + 1) * k \<le> c * k" by (simp add: mult_right_mono)
  with c show ?thesis by (simp add: mult.commute)
qed

text \<open>
  C9. For positive \<open>n\<close> and \<open>k\<close>, \<open>find_multiple n k\<close> returns (it does not raise) the
  smallest multiple of \<open>k\<close> that is at least \<open>n\<close>, and the result is \<open>n\<close> itself
  exactly when \<open>k\<close> divides \<open>n\<close>.
\<close>

theorem find_multiple_least_multiple:
  assumes "0 < n" and "0 < k"
  shows "\<exists>m. find_multiple n k = Inr m \<and> k dvd m \<and> n \<le> m
           \<and> (\<forall>j. k dvd j \<and> n \<le> j \<longrightarrow> m \<le> j) \<and> (m = n \<longleftrightarrow> k dvd n)"
proof (cases "k dvd n")
  case True
  with assms show ?thesis by (simp add: find_multiple_value)
next
  case False
  let ?m = "(n div k + 1) * k"
  have fm: "find_multiple n k = Inr ?m"
    using assms False by (simp add: find_multiple_value)
  have gt: "n < ?m"
  proof -
    have "n mod k < k" using assms by simp
    moreover have "?m = n div k * k + k" by (simp add: algebra_simps)
    ultimately show ?thesis using div_mult_mod_eq [of n k] by linarith
  qed
  have least: "\<forall>j. k dvd j \<and> n \<le> j \<longrightarrow> ?m \<le> j"
    using multiple_above [OF assms(2) _ _ False] by blast
  from fm gt least False show ?thesis by simp
qed

theorem find_multiple_least_multiple_witness:
  "(0::int) < 2730 \<and> (0::int) < 256 \<and> (\<exists>m. find_multiple 2730 256 = Inr m \<and> (256::int) dvd m \<and> 2730 \<le> m
     \<and> (\<forall>j. 256 dvd j \<and> 2730 \<le> j \<longrightarrow> m \<le> j) \<and> (m = 2730 \<longleftrightarrow> (256::int) dvd 2730))"
  using find_multiple_least_multiple [of 2730 256] by simp

section \<open>Properties of ModelArgs\<close>

lemma post_init_returns:
  assumes "n_head a \<noteq> 0"
    and "intermediate_size a = None \<Longrightarrow> \<exists>h. f (2 * (4 * dim a)) 3 = Inr h"
  shows "\<exists>a'. post_init f a = Inr a'"
  using assms
  by (cases "intermediate_size a")
     (auto simp: post_init_def set_intermediate_size_def bind_err_def find_multiple_def Let_def)

text \<open>
  C10. When \<open>__post_init__\<close> completes, \<open>head_dim\<close> is \<open>dim // n_head\<close> whatever
  \<open>head_dim\<close> the caller supplied, and \<open>n_local_heads\<close> is \<open>n_head\<close> whenever the
  supplied \<open>n_local_heads\<close> was \<open>-1\<close>.
\<close>

theorem post_init_head_dim_and_local_heads:
  assumes "post_init f a = Inr a'"
  shows "head_dim a' = dim a div n_head a
       \<and> (n_local_heads a = - 1 \<longrightarrow> n_local_heads a' = n_head a)"
  using assms
  by (cases "intermediate_size a")
     (auto simp: post_init_def set_intermediate_size_def bind_err_def find_multiple_def Let_def
           split: if_splits sum.splits)

theorem post_init_head_dim_and_local_heads_witness:
  "post_init trunc_div stories15M
     = Inr (stories15M\<lparr>n_local_heads := 6, intermediate_size := Some 768, head_dim := 48\<rparr>)
   \<and> head_dim (stories15M\<lparr>n_local_heads := 6, intermediate_size := Some 768, head_dim := 48\<rparr>)
     = dim stories15M div n_head stories15M
   \<and> n_local_heads stories15M = - 1
   \<and> n_local_heads (stories15M\<lparr>n_local_heads := 6, intermediate_size := Some 768, head_dim := 48\<rparr>)
     = n_head stories15M"
proof -
  have run: "post_init trunc_div stories15M
     = Inr (stories15M\<lparr>n_local_heads := 6, intermediate_size := Some 768, head_dim := 48\<rparr>)"
    by (simp add: post_init_def set_intermediate_size_def bind_err_def find_multiple_def
        trunc_div_def stories15M_def Let_def)
  have supplied: "n_local_heads stories15M = - 1"
    by (simp add: stories15M_def)
  from post_init_head_dim_and_local_heads [OF run] run supplied show ?thesis by blast
qed

section \<open>The keys of the statistics dictionary\<close>

lemma digit_char_in: "d < 10 \<Longrightarrow> digit_char d \<in> set ''0123456789''"
  unfolding digit_char_def by (rule nth_mem) simp

lemma digit_char_inj: "d < 10 \<Longrightarrow> e < 10 \<Longrightarrow> digit_char d = digit_char e \<Longrightarrow> d = e"
proof -
  assume d: "d < 10" and e: "e < 10" and eq: "digit_char d = digit_char e"
  have dist: "distinct ''0123456789''" by simp
  have "length ''0123456789'' = 10" by simp
  with d e eq dist show "d = e"
    unfolding digit_char_def by (metis nth_eq_iff_index_eq)
qed

lemma str_of_nat_digits: "set (str_of_nat n) \<subseteq> set ''0123456789''"
proof (induction n rule: str_of_nat.induct)
  case (1 n)
  show ?case
  proof (cases "n < 10")
    case True
    then show ?thesis using digit_char_in [of n] by (subst str_of_nat.simps) simp
  next
    case False
    have "n mod 10 < 10" by simp
    from digit_char_in [OF this] 1 [OF False] False show ?thesis
      by (subst str_of_nat.simps) simp
  qed
qed

lemma str_of_nat_nonempty: "str_of_nat n \<noteq> []"
  by (subst str_of_nat.simps) simp

lemma str_of_nat_inj: "str_of_nat n = str_of_nat m \<Longrightarrow> n = m"
proof (induction n arbitrary: m rule: str_of_nat.induct)
  case (1 n)
  show ?case
  proof (cases "n < 10")
    case n: True
    show ?thesis
    proof (cases "m < 10")
      case True
      with n 1(2) show ?thesis
        by (simp add: str_of_nat.simps [of n] str_of_nat.simps [of m] digit_char_inj)
    next
      case False
      with n 1(2) str_of_nat_nonempty [of "m div 10"] show ?thesis
        by (simp add: str_of_nat.simps [of n] str_of_nat.simps [of m])
    qed
  next
    case n: False
    show ?thesis
    proof (cases "m < 10")
      case True
      with n 1(2) str_of_nat_nonempty [of "n div 10"] show ?thesis
        by (simp add: str_of_nat.simps [of n] str_of_nat.simps [of m])
    next
      case False
      with n 1(2) have pre: "str_of_nat (n div 10) = str_of_nat (m div 10)"
        and dig: "digit_char (n mod 10) = digit_char (m mod 10)"
        by (simp_all add: str_of_nat.simps [of n] str_of_nat.simps [of m])
      from 1(1) [OF n pre] have "n div 10 = m div 10" .
      moreover from dig have "n mod 10 = m mod 10" by (simp add: digit_char_inj)
      ultimately show ?thesis by (metis div_mult_mod_eq)
    qed
  qed
qed

lemma split_at_last:
  assumes "x \<notin> set s" and "x \<notin> set s'" and "k @ x # s = k' @ x # s'"
  shows "k = k' \<and> s = s'"
proof -
  from assms(3) have "rev s @ x # rev k = rev s' @ x # rev k'"
    by (metis rev.simps(2) rev_append append_assoc append_Cons append_Nil)
  moreover have "\<And>xs ys xs' ys'. x \<notin> set xs \<Longrightarrow> x \<notin> set xs' \<Longrightarrow> xs @ x # ys = xs' @ x # ys'
      \<Longrightarrow> xs = xs' \<and> ys = ys'"
  proof -
    fix xs ys xs' ys'
    show "x \<notin> set xs \<Longrightarrow> x \<notin> set xs' \<Longrightarrow> xs @ x # ys = xs' @ x # ys' \<Longrightarrow> xs = xs' \<and> ys = ys'"
      by (induction xs arbitrary: xs') (auto simp: Cons_eq_append_conv append_eq_Cons_conv)
  qed
  ultimately have "rev s = rev s' \<and> rev k = rev k'"
    using assms(1,2) by (metis set_rev)
  then show ?thesis by simp
qed

lemma underscore_not_digit: "CHR ''_'' \<notin> set (str_of_nat n)"
  using str_of_nat_digits [of n] by auto

lemma layer_key_inj: "layer_key k i = layer_key k' i' \<longleftrightarrow> k = k' \<and> i = i'"
proof
  assume "layer_key k i = layer_key k' i'"
  then have "k @ CHR ''_'' # str_of_nat i = k' @ CHR ''_'' # str_of_nat i'"
    by (simp add: layer_key_def)
  from split_at_last [OF underscore_not_digit underscore_not_digit this]
  show "k = k' \<and> i = i'" by (simp add: str_of_nat_inj)
qed simp

lemma layer_key_not_avg: "layer_key k i \<noteq> avg_key k'"
proof
  assume "layer_key k i = avg_key k'"
  then have "k @ CHR ''_'' # str_of_nat i = k' @ CHR ''_'' # ''avg''"
    by (simp add: layer_key_def avg_key_def)
  from split_at_last [OF underscore_not_digit _ this]
  have "str_of_nat i = ''avg''" by simp
  with str_of_nat_digits [of i] show False by simp
qed

lemma layer_key_not_mem: "layer_key k i \<noteq> ''cache_memory_gb''"
proof
  assume "layer_key k i = ''cache_memory_gb''"
  then have "k @ CHR ''_'' # str_of_nat i = ''cache_memory'' @ CHR ''_'' # ''gb''"
    by (simp add: layer_key_def)
  from split_at_last [OF underscore_not_digit _ this]
  have "str_of_nat i = ''gb''" by simp
  with str_of_nat_digits [of i] show False by simp
qed

lemma avg_key_not_mem: "avg_key k \<noteq> ''cache_memory_gb''"
proof
  assume "avg_key k = ''cache_memory_gb''"
  then have "k @ CHR ''_'' # ''avg'' = ''cache_memory'' @ CHR ''_'' # ''gb''"
    by (simp add: avg_key_def)
  from split_at_last [OF _ _ this]
  show False by simp
qed

lemma avg_key_inj: "avg_key k = avg_key k' \<longleftrightarrow> k = k'"
  by (simp add: avg_key_def)

section \<open>Properties of get_cache_stats\<close>

lemma get_default_update:
  "get_default (AList.update k vs avgs) k' = (if k' = k then vs else get_default avgs k')"
  by (simp add: get_default_def update_conv')

lemma avgs_ok_update: "avgs_ok avgs \<Longrightarrow> vs \<noteq> [] \<Longrightarrow> avgs_ok (AList.update k vs avgs)"
proof -
  assume ok: "avgs_ok avgs" and ne: "vs \<noteq> []"
  have "snd ` set (AList.update k vs avgs) \<subseteq> insert vs (snd ` set avgs)"
    by (induction avgs) auto
  with ok ne show ?thesis
    by (auto simp: avgs_ok_def distinct_update)
qed

lemma add_items_stats_same_layer:
  "distinct (map fst items) \<Longrightarrow>
   map_of (fst (add_items i items (stats, avgs))) (layer_key k i)
     = (case map_of items k of None \<Rightarrow> map_of stats (layer_key k i) | Some v \<Rightarrow> Some v)"
proof (induction items arbitrary: stats avgs)
  case Nil
  then show ?case by simp
next
  case (Cons kv items)
  obtain k0 v0 where kv: "kv = (k0, v0)" by (cases kv)
  from Cons.prems kv have d: "distinct (map fst items)" and nin: "k0 \<notin> fst ` set items"
    by auto
  from nin have none: "map_of items k0 = None" by (simp add: map_of_eq_None_iff)
  show ?case
    using Cons.IH [OF d] none
    by (auto simp: kv update_conv' layer_key_inj split: option.splits)
qed

lemma add_items_stats_other:
  "\<forall>k \<in> fst ` set items. key \<noteq> layer_key k i \<Longrightarrow>
   map_of (fst (add_items i items (stats, avgs))) key = map_of stats key"
proof (induction items arbitrary: stats avgs)
  case Nil
  then show ?case by simp
next
  case (Cons kv items)
  obtain k0 v0 where kv: "kv = (k0, v0)" by (cases kv)
  from Cons.prems kv have rest: "\<forall>k \<in> fst ` set items. key \<noteq> layer_key k i"
    and k0: "key \<noteq> layer_key k0 i" by auto
  show ?case using Cons.IH [OF rest] k0 by (simp add: kv update_conv')
qed

lemma add_items_avgs:
  "distinct (map fst items) \<Longrightarrow>
   get_default (snd (add_items i items (stats, avgs))) k = get_default avgs k @ item_values items k"
proof (induction items arbitrary: stats avgs)
  case Nil
  then show ?case by (simp add: item_values_def)
next
  case (Cons kv items)
  obtain k0 v0 where kv: "kv = (k0, v0)" by (cases kv)
  from Cons.prems kv have d: "distinct (map fst items)" and nin: "k0 \<notin> fst ` set items"
    by auto
  from nin have none: "map_of items k0 = None" by (simp add: map_of_eq_None_iff)
  show ?case
    using Cons.IH [OF d] none
    by (simp add: kv get_default_update item_values_def)
qed

lemma add_items_avgs_ok:
  "avgs_ok avgs \<Longrightarrow> avgs_ok (snd (add_items i items (stats, avgs)))"
proof (induction items arbitrary: stats avgs)
  case Nil
  then show ?case by simp
next
  case (Cons kv items)
  obtain k0 v0 where kv: "kv = (k0, v0)" by (cases kv)
  have "avgs_ok (AList.update k0 (get_default avgs k0 @ [v0]) avgs)"
    using Cons.prems by (simp add: avgs_ok_update)
  from Cons.IH [OF this] show ?case by (simp add: kv)
qed

lemma avgs_ok_default: "avgs_ok avgs \<Longrightarrow> (map_of avgs k = None) = (get_default avgs k = [])"
proof -
  assume ok: "avgs_ok avgs"
  show ?thesis
  proof (cases "map_of avgs k")
    case None
    then show ?thesis by (simp add: get_default_def)
  next
    case (Some vs)
    then have "(k, vs) \<in> set avgs" by (rule map_of_SomeD)
    then have "vs \<in> snd ` set avgs" by force
    with ok have "vs \<noteq> []" unfolding avgs_ok_def by metis
    with Some show ?thesis by (simp add: get_default_def)
  qed
qed

lemma torch_tensor_Inr: "torch_tensor n = Inr m \<Longrightarrow> m = n"
  by (simp add: torch_tensor_def split: if_splits)

lemma stats_loop_result:
  assumes "torch_tensor seq_len = Inr seq_len"
    and "length (returned_stats calls seq_len i r layers) = r"
    and "\<forall>stat \<in> set (returned_stats calls seq_len i r layers). well_formed_stat stat"
    and "avgs_ok avgs"
  shows "\<exists>stats' avgs' layers'.
      stats_loop calls ar seq_len i r layers (stats, avgs, mem)
        = Inr ((stats', avgs',
                foldl (py_add ar) mem (map (memory_of ar) (returned_stats calls seq_len i r layers))),
               layers')
    \<and> avgs_ok avgs'
    \<and> (\<forall>k. get_default avgs' k
            = get_default avgs k @ loop_values k (returned_stats calls seq_len i r layers))
    \<and> (\<forall>k j. map_of stats' (layer_key k j) =
          (if i \<le> j \<and> j < i + r then
             (case map_of (AList.delete ''cache_memory_gb''
                             (returned_stats calls seq_len i r layers ! (j - i))) k of
                None \<Rightarrow> map_of stats (layer_key k j) | Some v \<Rightarrow> Some v)
           else map_of stats (layer_key k j)))
    \<and> (\<forall>key. (\<forall>k j. key \<noteq> layer_key k j) \<longrightarrow> map_of stats' key = map_of stats key)"
  using assms
proof (induction r arbitrary: i layers stats avgs mem)
  case 0
  then show ?case by (auto simp: loop_values_def)
next
  case (Suc r)
  let ?R = "returned_stats calls seq_len i (Suc r) layers"
  from Suc.prems(2) obtain stat layers1 where
    call: "compute_statistics calls layers i seq_len = Inr (stat, layers1)"
    by (cases "compute_statistics calls layers i seq_len") auto
  let ?layers2 = "on_pop calls layers1 i"
  let ?R' = "returned_stats calls seq_len (Suc i) r ?layers2"
  from call Suc.prems(3) have wf: "well_formed_stat stat" by simp
  then have has: "''cache_memory_gb'' \<in> fst ` set stat" by (simp add: well_formed_stat_def)
  with call have R: "?R = stat # ?R'" by simp
  from R Suc.prems(2) have len': "length ?R' = r" by simp
  from R Suc.prems(3) have wf': "\<forall>s \<in> set ?R'. well_formed_stat s" by simp
  let ?stat' = "AList.delete ''cache_memory_gb'' stat"
  from has obtain m where m: "map_of stat ''cache_memory_gb'' = Some m"
    by (metis map_of_eq_None_iff not_Some_eq)
  then have mem_c: "memory_of ar stat = m" by (simp add: memory_of_def)
  from wf have d: "distinct (map fst ?stat')"
    by (simp add: well_formed_stat_def distinct_delete)
  obtain stats1 avgs1 where step: "add_items i ?stat' (stats, avgs) = (stats1, avgs1)"
    by (cases "add_items i ?stat' (stats, avgs)")
  have ok1: "avgs_ok avgs1"
    using add_items_avgs_ok [OF Suc.prems(4), of i ?stat' stats] step by simp
  have avgs1: "\<And>k. get_default avgs1 k = get_default avgs k @ item_values ?stat' k"
    using add_items_avgs [OF d, of i stats avgs] step by simp
  have same1: "\<And>k. map_of stats1 (layer_key k i)
      = (case map_of ?stat' k of None \<Rightarrow> map_of stats (layer_key k i) | Some v \<Rightarrow> Some v)"
    using add_items_stats_same_layer [OF d, of i stats avgs] step by simp
  have other1: "\<And>key. \<forall>k. key \<noteq> layer_key k i \<Longrightarrow> map_of stats1 key = map_of stats key"
    using add_items_stats_other [of ?stat' _ i stats avgs] step by simp
  from Suc.IH [OF Suc.prems(1) len' wf' ok1, of stats1 "py_add ar mem m"]
  obtain stats' avgs' layers' where
    run: "stats_loop calls ar seq_len (Suc i) r ?layers2 (stats1, avgs1, py_add ar mem m)
        = Inr ((stats', avgs', foldl (py_add ar) (py_add ar mem m) (map (memory_of ar) ?R')), layers')"
    and ok': "avgs_ok avgs'"
    and avgs': "\<And>k. get_default avgs' k = get_default avgs1 k @ loop_values k ?R'"
    and lay': "\<And>k j. map_of stats' (layer_key k j) =
          (if Suc i \<le> j \<and> j < Suc i + r then
             (case map_of (AList.delete ''cache_memory_gb'' (?R' ! (j - Suc i))) k of
                None \<Rightarrow> map_of stats1 (layer_key k j) | Some v \<Rightarrow> Some v)
           else map_of stats1 (layer_key k j))"
    and oth': "\<And>key. (\<forall>k j. key \<noteq> layer_key k j) \<Longrightarrow> map_of stats' key = map_of stats1 key"
    by blast
  have unfold: "stats_loop calls ar seq_len i (Suc r) layers (stats, avgs, mem)
      = stats_loop calls ar seq_len (Suc i) r ?layers2 (stats1, avgs1, py_add ar mem m)"
    by (simp add: Suc.prems(1) call pop_def m step)
  have A: "stats_loop calls ar seq_len i (Suc r) layers (stats, avgs, mem)
        = Inr ((stats', avgs', foldl (py_add ar) mem (map (memory_of ar) ?R)), layers')"
    unfolding unfold run R by (simp add: mem_c)
  have B: "\<forall>k. get_default avgs' k = get_default avgs k @ loop_values k ?R"
    unfolding R using avgs' avgs1 by (simp add: loop_values_def)
  have C: "\<forall>k j. map_of stats' (layer_key k j) =
          (if i \<le> j \<and> j < i + Suc r then
             (case map_of (AList.delete ''cache_memory_gb'' (?R ! (j - i))) k of
                None \<Rightarrow> map_of stats (layer_key k j) | Some v \<Rightarrow> Some v)
           else map_of stats (layer_key k j))"
  proof (intro allI)
    fix k j
    consider "j < i" | "j = i" | "Suc i \<le> j" "j < Suc i + r" | "Suc i + r \<le> j"
      by linarith
    then show "map_of stats' (layer_key k j) =
          (if i \<le> j \<and> j < i + Suc r then
             (case map_of (AList.delete ''cache_memory_gb'' (?R ! (j - i))) k of
                None \<Rightarrow> map_of stats (layer_key k j) | Some v \<Rightarrow> Some v)
           else map_of stats (layer_key k j))"
    proof cases
      case 1
      then show ?thesis using lay' [of k j] other1 [of "layer_key k j"]
        by (simp add: layer_key_inj split: option.splits)
    next
      case 2
      show ?thesis unfolding 2 R using lay' [of k i] same1 [of k] by simp
    next
      case 3
      then have ne: "j \<noteq> i" and idx: "(stat # ?R') ! (j - i) = ?R' ! (j - Suc i)"
        by (simp_all add: nth_Cons')
      with 3 show ?thesis unfolding R using lay' [of k j] other1 [of "layer_key k j"]
        by (simp add: layer_key_inj split: option.splits)
    next
      case 4
      then show ?thesis using lay' [of k j] other1 [of "layer_key k j"]
        by (simp add: layer_key_inj split: option.splits)
    qed
  qed
  have D: "\<forall>key. (\<forall>k j. key \<noteq> layer_key k j) \<longrightarrow> map_of stats' key = map_of stats key"
    using oth' other1 by simp
  from A ok' B C D show ?case by blast
qed


lemma add_avgs_result:
  assumes "avgs_ok avgs"
  shows "\<exists>stats'. add_avgs ar avgs stats = Inr stats'
    \<and> (\<forall>k. map_of stats' (avg_key k) =
          (case map_of avgs k of
             None \<Rightarrow> map_of stats (avg_key k)
           | Some vs \<Rightarrow> Some (py_truediv ar (py_sum ar vs) (length vs))))
    \<and> (\<forall>key. (\<forall>k. key \<noteq> avg_key k) \<longrightarrow> map_of stats' key = map_of stats key)"
  using assms
proof (induction avgs arbitrary: stats)
  case Nil
  then show ?case by simp
next
  case (Cons kv avgs)
  obtain k0 vs0 where kv: "kv = (k0, vs0)" by (cases kv)
  from Cons.prems kv have ne: "vs0 \<noteq> []" and nin: "k0 \<notin> fst ` set avgs" and ok: "avgs_ok avgs"
    by (auto simp: avgs_ok_def)
  from nin have none: "map_of avgs k0 = None" by (simp add: map_of_eq_None_iff)
  let ?s1 = "AList.update (avg_key k0) (py_truediv ar (py_sum ar vs0) (length vs0)) stats"
  from Cons.IH [OF ok, of ?s1] obtain stats' where
    run: "add_avgs ar avgs ?s1 = Inr stats'"
    and avg: "\<And>k. map_of stats' (avg_key k) =
          (case map_of avgs k of
             None \<Rightarrow> map_of ?s1 (avg_key k)
           | Some vs \<Rightarrow> Some (py_truediv ar (py_sum ar vs) (length vs)))"
    and oth: "\<And>key. (\<forall>k. key \<noteq> avg_key k) \<Longrightarrow> map_of stats' key = map_of ?s1 key"
    by blast
  have A: "add_avgs ar (kv # avgs) stats = Inr stats'"
    using run ne by (simp add: kv)
  have B: "\<forall>k. map_of stats' (avg_key k) =
          (case map_of (kv # avgs) k of
             None \<Rightarrow> map_of stats (avg_key k)
           | Some vs \<Rightarrow> Some (py_truediv ar (py_sum ar vs) (length vs)))"
  proof
    fix k
    show "map_of stats' (avg_key k) =
          (case map_of (kv # avgs) k of
             None \<Rightarrow> map_of stats (avg_key k)
           | Some vs \<Rightarrow> Some (py_truediv ar (py_sum ar vs) (length vs)))"
      using avg [of k] none
      by (cases "k = k0") (simp_all add: kv update_conv' avg_key_inj split: option.splits)
  qed
  have C: "\<forall>key. (\<forall>k. key \<noteq> avg_key k) \<longrightarrow> map_of stats' key = map_of stats key"
    using oth by (simp add: update_conv')
  from A B C show ?case by blast
qed

lemma loop_values_per_layer:
  "k \<noteq> ''cache_memory_gb'' \<Longrightarrow> loop_values k returned = per_layer_values k returned"
  by (simp add: loop_values_def per_layer_values_def item_values_def delete_conv')

lemma loop_values_memory: "loop_values ''cache_memory_gb'' returned = []"
  by (simp add: loop_values_def item_values_def delete_conv')

lemma avgs_ok_Nil: "avgs_ok []"
  by (simp add: avgs_ok_def)

lemma torch_tensor_in_range:
  "- (2 ^ 63) \<le> n \<Longrightarrow> n < 2 ^ 63 \<Longrightarrow> torch_tensor n = Inr n"
  by (simp add: torch_tensor_def)

lemma two_layers_returned:
  "returned_stats two_layers_calls (10 + 5) 0 (length two_layers) two_layers
     = [[(''compression_ratio'', 1 / 4), (''cache_memory_gb'', 1)],
        [(''compression_ratio'', 1 / 2), (''cache_memory_gb'', 2)]]"
  by (simp add: two_layers_calls_def two_layers_def report2_def)

text \<open>
  C5 (amended). Let the final sequence length fit a 64-bit integer (or the model have no
  layer), and let every layer's call of \<open>compute_statistics\<close> return a well-formed
  dictionary. Then \<open>get_cache_stats\<close> returns a dictionary that holds, for every
  statistic other than \<open>cache_memory_gb\<close> in a layer's dictionary, the layer's value
  under the key of the statistic and the layer index; for every such statistic, under
  its \<open>_avg\<close> key, \<open>sum(v) / len(v)\<close> of the values \<open>v\<close> of the layers that report
  it, in layer order, computed in Python's arithmetic; and, under \<open>cache_memory_gb\<close>,
  the layers' memory figures added up from \<open>0\<close> in layer order, in the same
  arithmetic. The memory figure has neither per-layer entries nor an averaged entry.
\<close>

theorem get_cache_stats_entries:
  assumes range: "layers = [] \<or> (- (2 ^ 63) \<le> prompt_len + gen_len \<and> prompt_len + gen_len < 2 ^ 63)"
    and ret: "returned = returned_stats calls (prompt_len + gen_len) 0 (length layers) layers"
    and all: "length returned = length layers"
    and wf: "\<forall>stat \<in> set returned. well_formed_stat stat"
  shows "\<exists>stats layers'. get_cache_stats calls ar layers prompt_len gen_len = Inr (stats, layers')
    \<and> (\<forall>i k v. i < length layers \<and> k \<noteq> ''cache_memory_gb'' \<and> (k, v) \<in> set (returned ! i)
           \<longrightarrow> map_of stats (layer_key k i) = Some v)
    \<and> (\<forall>k. k \<noteq> ''cache_memory_gb'' \<and> per_layer_values k returned \<noteq> []
           \<longrightarrow> map_of stats (avg_key k)
               = Some (py_truediv ar (py_sum ar (per_layer_values k returned))
                         (length (per_layer_values k returned))))
    \<and> map_of stats ''cache_memory_gb''
         = Some (foldl (py_add ar) (py_zero ar) (map (memory_of ar) returned))
    \<and> (\<forall>i. map_of stats (layer_key ''cache_memory_gb'' i) = None)
    \<and> map_of stats (avg_key ''cache_memory_gb'') = None"
proof -
  let ?seq = "prompt_len + gen_len"
  let ?n = "length layers"
  let ?total = "foldl (py_add ar) (py_zero ar) (map (memory_of ar) returned)"
  have loop: "\<exists>stats' avgs' layers'.
      stats_loop calls ar ?seq 0 ?n layers ([], [], py_zero ar)
        = Inr ((stats', avgs', ?total), layers')
    \<and> avgs_ok avgs'
    \<and> (\<forall>k. get_default avgs' k = get_default [] k @ loop_values k returned)
    \<and> (\<forall>k j. map_of stats' (layer_key k j) =
          (if 0 \<le> j \<and> j < 0 + ?n then
             (case map_of (AList.delete ''cache_memory_gb'' (returned ! (j - 0))) k of
                None \<Rightarrow> map_of [] (layer_key k j) | Some v \<Rightarrow> Some v)
           else map_of [] (layer_key k j)))
    \<and> (\<forall>key. (\<forall>k j. key \<noteq> layer_key k j) \<longrightarrow> map_of stats' key = map_of [] key)"
  proof (cases "layers = []")
    case True
    with ret show ?thesis by (simp add: avgs_ok_Nil loop_values_def)
  next
    case False
    with range have "torch_tensor ?seq = Inr ?seq" by (simp add: torch_tensor_in_range)
    from stats_loop_result [OF this all [unfolded ret] wf [unfolded ret] avgs_ok_Nil,
        of ar "[]" "py_zero ar"]
    show ?thesis unfolding ret .
  qed
  then obtain stats1 avgs1 layers' where
    run: "stats_loop calls ar ?seq 0 ?n layers ([], [], py_zero ar)
        = Inr ((stats1, avgs1, ?total), layers')"
    and ok1: "avgs_ok avgs1"
    and avgs1': "\<forall>k. get_default avgs1 k = get_default [] k @ loop_values k returned"
    and lay1': "\<forall>k j. map_of stats1 (layer_key k j) =
          (if 0 \<le> j \<and> j < 0 + ?n then
             (case map_of (AList.delete ''cache_memory_gb'' (returned ! (j - 0))) k of
                None \<Rightarrow> map_of [] (layer_key k j) | Some v \<Rightarrow> Some v)
           else map_of [] (layer_key k j))"
    and oth1': "\<forall>key. (\<forall>k j. key \<noteq> layer_key k j) \<longrightarrow> map_of stats1 key = map_of [] key"
    by blast
  have avgs1: "\<And>k. get_default avgs1 k = loop_values k returned"
    using avgs1' by (simp add: get_default_def)
  have lay1: "\<And>k j. map_of stats1 (layer_key k j) =
          (if j < ?n then map_of (AList.delete ''cache_memory_gb'' (returned ! j)) k else None)"
    using lay1' by (simp split: option.splits)
  have oth1: "\<And>key. (\<forall>k j. key \<noteq> layer_key k j) \<Longrightarrow> map_of stats1 key = None"
    using oth1' by simp
  from add_avgs_result [OF ok1, of ar stats1]
  obtain stats2 where
    run2: "add_avgs ar avgs1 stats1 = Inr stats2"
    and avg2: "\<And>k. map_of stats2 (avg_key k) =
          (case map_of avgs1 k of
             None \<Rightarrow> map_of stats1 (avg_key k)
           | Some vs \<Rightarrow> Some (py_truediv ar (py_sum ar vs) (length vs)))"
    and oth2: "\<And>key. (\<forall>k. key \<noteq> avg_key k) \<Longrightarrow> map_of stats2 key = map_of stats1 key"
    by blast
  let ?stats = "AList.update ''cache_memory_gb'' ?total stats2"
  have res: "get_cache_stats calls ar layers prompt_len gen_len = Inr (?stats, layers')"
    using run run2 by (simp add: get_cache_stats_def bind_err_def Let_def)
  have lay2: "\<And>k j. map_of ?stats (layer_key k j) = map_of stats1 (layer_key k j)"
    using oth2 layer_key_not_avg by (simp add: update_conv' layer_key_not_mem)
  have avg1_none: "\<And>k. map_of stats1 (avg_key k) = None"
    using oth1 layer_key_not_avg by metis
  have P1: "\<forall>i k v. i < ?n \<and> k \<noteq> ''cache_memory_gb'' \<and> (k, v) \<in> set (returned ! i)
           \<longrightarrow> map_of ?stats (layer_key k i) = Some v"
  proof (intro allI impI)
    fix i k v
    assume h: "i < ?n \<and> k \<noteq> ''cache_memory_gb'' \<and> (k, v) \<in> set (returned ! i)"
    with all have "returned ! i \<in> set returned" by simp
    with wf have "distinct (map fst (returned ! i))"
      by (simp add: well_formed_stat_def)
    with h have "map_of (returned ! i) k = Some v" by simp
    with h show "map_of ?stats (layer_key k i) = Some v"
      by (simp only: lay2 lay1) (simp add: delete_conv')
  qed
  have P2: "\<forall>k. k \<noteq> ''cache_memory_gb'' \<and> per_layer_values k returned \<noteq> []
           \<longrightarrow> map_of ?stats (avg_key k)
               = Some (py_truediv ar (py_sum ar (per_layer_values k returned))
                         (length (per_layer_values k returned)))"
  proof (intro allI impI)
    fix k
    assume h: "k \<noteq> ''cache_memory_gb'' \<and> per_layer_values k returned \<noteq> []"
    then have gd: "get_default avgs1 k = per_layer_values k returned"
      using avgs1 [of k] by (simp add: loop_values_per_layer)
    with h avgs_ok_default [OF ok1, of k] obtain vs where vs: "map_of avgs1 k = Some vs"
      by auto
    with gd have "vs = per_layer_values k returned" by (simp add: get_default_def)
    with vs avg2 [of k] show "map_of ?stats (avg_key k)
               = Some (py_truediv ar (py_sum ar (per_layer_values k returned))
                         (length (per_layer_values k returned)))"
      by (simp add: update_conv' avg_key_not_mem)
  qed
  have P3: "map_of ?stats ''cache_memory_gb'' = Some ?total"
    by (simp add: update_conv')
  have P4: "\<forall>i. map_of ?stats (layer_key ''cache_memory_gb'' i) = None"
    by (simp only: lay2 lay1) (simp add: delete_conv')
  have P5: "map_of ?stats (avg_key ''cache_memory_gb'') = None"
  proof -
    have "get_default avgs1 ''cache_memory_gb'' = []"
      using avgs1 [of "''cache_memory_gb''"] by (simp add: loop_values_memory)
    with avgs_ok_default [OF ok1, of "''cache_memory_gb''"]
    have "map_of avgs1 ''cache_memory_gb'' = None" by simp
    with avg2 [of "''cache_memory_gb''"] avg1_none show ?thesis
      by (simp add: update_conv' avg_key_not_mem)
  qed
  from res P1 P2 P3 P4 P5 show ?thesis by blast
qed

theorem get_cache_stats_entries_witness:
  "- (2 ^ 63) \<le> (10::int) + 5 \<and> (10::int) + 5 < 2 ^ 63
   \<and> returned_stats two_layers_calls (10 + 5) 0 (length two_layers) two_layers
       = [[(''compression_ratio'', 1 / 4), (''cache_memory_gb'', 1)],
          [(''compression_ratio'', 1 / 2), (''cache_memory_gb'', 2)]]
   \<and> length [[(''compression_ratio'', 1 / 4 :: rat), (''cache_memory_gb'', 1)],
          [(''compression_ratio'', 1 / 2), (''cache_memory_gb'', 2)]] = length two_layers
   \<and> well_formed_stat [(''compression_ratio'', 1 / 4 :: rat), (''cache_memory_gb'', 1)]
   \<and> well_formed_stat [(''compression_ratio'', 1 / 2 :: rat), (''cache_memory_gb'', 2)]
   \<and> (\<exists>stats layers'.
        get_cache_stats two_layers_calls exact_arithmetic two_layers 10 5 = Inr (stats, layers')
        \<and> map_of stats (layer_key ''compression_ratio'' 0) = Some (1 / 4)
        \<and> map_of stats (layer_key ''compression_ratio'' 1) = Some (1 / 2)
        \<and> map_of stats (avg_key ''compression_ratio'') = Some (3 / 8)
        \<and> map_of stats ''cache_memory_gb'' = Some 3
        \<and> map_of stats (layer_key ''cache_memory_gb'' 0) = None
        \<and> map_of stats (avg_key ''cache_memory_gb'') = None)"
proof -
  define R :: "rat stat_dict list" where
    "R = [[(''compression_ratio'', 1 / 4), (''cache_memory_gb'', 1)],
          [(''compression_ratio'', 1 / 2), (''cache_memory_gb'', 2)]]"
  have lo: "- (2 ^ 63) \<le> (10::int) + 5" and hi: "(10::int) + 5 < 2 ^ 63"
    by simp_all
  then have range: "two_layers = [] \<or> (- (2 ^ 63) \<le> (10::int) + 5 \<and> (10::int) + 5 < 2 ^ 63)"
    by (intro disjI2 conjI)
  have ret: "R = returned_stats two_layers_calls (10 + 5) 0 (length two_layers) two_layers"
    unfolding R_def by (rule two_layers_returned [symmetric])
  have len: "length R = length two_layers"
    by (simp add: R_def two_layers_def)
  have wf0: "well_formed_stat [(''compression_ratio'', 1 / 4 :: rat), (''cache_memory_gb'', 1)]"
    and wf1: "well_formed_stat [(''compression_ratio'', 1 / 2 :: rat), (''cache_memory_gb'', 2)]"
    by (simp_all add: well_formed_stat_def)
  then have wf: "\<forall>stat \<in> set R. well_formed_stat stat" by (simp add: R_def)
  from get_cache_stats_entries [OF range ret len wf, of exact_arithmetic]
  obtain stats layers' where
    res: "get_cache_stats two_layers_calls exact_arithmetic two_layers 10 5 = Inr (stats, layers')"
    and lay: "\<forall>i k v. i < length two_layers \<and> k \<noteq> ''cache_memory_gb'' \<and> (k, v) \<in> set (R ! i)
           \<longrightarrow> map_of stats (layer_key k i) = Some v"
    and avg: "\<forall>k. k \<noteq> ''cache_memory_gb'' \<and> per_layer_values k R \<noteq> []
           \<longrightarrow> map_of stats (avg_key k)
               = Some (py_truediv exact_arithmetic (py_sum exact_arithmetic (per_layer_values k R))
                         (length (per_layer_values k R)))"
    and tot: "map_of stats ''cache_memory_gb''
         = Some (foldl (py_add exact_arithmetic) (py_zero exact_arithmetic)
                   (map (memory_of exact_arithmetic) R))"
    and nolay: "\<forall>i. map_of stats (layer_key ''cache_memory_gb'' i) = None"
    and noavg: "map_of stats (avg_key ''cache_memory_gb'') = None"
    by (elim exE conjE)
  have l0: "map_of stats (layer_key ''compression_ratio'' 0) = Some (1 / 4)"
    using lay [rule_format, of 0 "''compression_ratio''" "1 / 4"]
    by (simp add: two_layers_def R_def)
  have l1: "map_of stats (layer_key ''compression_ratio'' 1) = Some (1 / 2)"
    using lay [rule_format, of 1 "''compression_ratio''" "1 / 2"]
    by (simp add: two_layers_def R_def)
  have a: "map_of stats (avg_key ''compression_ratio'') = Some (3 / 8)"
    using avg [rule_format, of "''compression_ratio''"]
    by (simp add: per_layer_values_def exact_arithmetic_def R_def)
  have t: "map_of stats ''cache_memory_gb'' = Some 3"
    using tot by (simp add: memory_of_def exact_arithmetic_def R_def)
  have ex: "\<exists>stats layers'.
        get_cache_stats two_layers_calls exact_arithmetic two_layers 10 5 = Inr (stats, layers')
        \<and> map_of stats (layer_key ''compression_ratio'' 0) = Some (1 / 4)
        \<and> map_of stats (layer_key ''compression_ratio'' 1) = Some (1 / 2)
        \<and> map_of stats (avg_key ''compression_ratio'') = Some (3 / 8)
        \<and> map_of stats ''cache_memory_gb'' = Some 3
        \<and> map_of stats (layer_key ''cache_memory_gb'' 0) = None
        \<and> map_of stats (avg_key ''cache_memory_gb'') = None"
  proof (intro exI conjI)
    show "get_cache_stats two_layers_calls exact_arithmetic two_layers 10 5 = Inr (stats, layers')"
      by (rule res)
    show "map_of stats (layer_key ''compression_ratio'' 0) = Some (1 / 4)" by (rule l0)
    show "map_of stats (layer_key ''compression_ratio'' 1) = Some (1 / 2)" by (rule l1)
    show "map_of stats (avg_key ''compression_ratio'') = Some (3 / 8)" by (rule a)
    show "map_of stats ''cache_memory_gb'' = Some 3" by (rule t)
    show "map_of stats (layer_key ''cache_memory_gb'' 0) = None" by (rule nolay [rule_format])
    show "map_of stats (avg_key ''cache_memory_gb'') = None" by (rule noavg)
  qed
  show ?thesis
    by (intro conjI lo hi two_layers_returned len [unfolded R_def] wf0 wf1 ex)
qed

text \<open>
  C5 as stated fails: \<open>cache_memory_gb\<close> is popped from each layer's dictionary before
  the per-layer entries are written, so the result has no per-layer and no averaged
  entry for the memory figure, although both layers report it.
\<close>

theorem get_cache_stats_memory_counterexample:
  "get_cache_stats two_layers_calls exact_arithmetic two_layers 10 5
     = Inr ([(''compression_ratio_0'', 1 / 4), (''compression_ratio_1'', 1 / 2),
             (''compression_ratio_avg'', 3 / 8), (''cache_memory_gb'', 3)], two_layers)
   \<and> returned_stats two_layers_calls (10 + 5) 0 (length two_layers) two_layers
       = [[(''compression_ratio'', 1 / 4), (''cache_memory_gb'', 1)],
          [(''compression_ratio'', 1 / 2), (''cache_memory_gb'', 2)]]
   \<and> map_of [(''compression_ratio_0'', 1 / 4), (''compression_ratio_1'', 1 / 2),
            (''compression_ratio_avg'', 3 / 8), (''cache_memory_gb'', 3 :: rat)]
        (layer_key ''cache_memory_gb'' 0) = None
   \<and> map_of [(''compression_ratio_0'', 1 / 4), (''compression_ratio_1'', 1 / 2),
            (''compression_ratio_avg'', 3 / 8), (''cache_memory_gb'', 3 :: rat)]
        (layer_key ''cache_memory_gb'' 1) = None
   \<and> map_of [(''compression_ratio_0'', 1 / 4), (''compression_ratio_1'', 1 / 2),
            (''compression_ratio_avg'', 3 / 8), (''cache_memory_gb'', 3 :: rat)]
        (avg_key ''cache_memory_gb'') = None"
  by (simp add: get_cache_stats_def pop_def bind_err_def report2_def torch_tensor_def
      two_layers_def two_layers_calls_def exact_arithmetic_def layer_key_def avg_key_def
      get_default_def str_of_nat.simps digit_char_def AList.delete_eq)

section \<open>Properties of prompt_cache_overflow\<close>

text \<open>
  C6. For every integer \<open>prompt_length\<close> and every list of layer caches,
  \<open>prompt_cache_overflow\<close> returns one boolean per layer, and the boolean of a layer is
  true exactly when \<open>prompt_length\<close> is strictly greater than the layer's
  \<open>max_cache_length\<close>.
\<close>

theorem prompt_cache_overflow_per_layer:
  "length (fst (prompt_cache_overflow layers prompt_length)) = length layers
   \<and> (\<forall>i < length layers.
         fst (prompt_cache_overflow layers prompt_length) ! i
           \<longleftrightarrow> prompt_length > max_cache_length (layers ! i))"
  by (simp add: prompt_cache_overflow_def)

theorem prompt_cache_overflow_per_layer_witness:
  "length (fst (prompt_cache_overflow two_layers 5)) = length two_layers
   \<and> (0::nat) < length two_layers
   \<and> (fst (prompt_cache_overflow two_layers 5) ! 0 \<longleftrightarrow> 5 > max_cache_length (two_layers ! 0))
   \<and> fst (prompt_cache_overflow two_layers 5) ! 0
   \<and> (1::nat) < length two_layers
   \<and> (fst (prompt_cache_overflow two_layers 5) ! 1 \<longleftrightarrow> 5 > max_cache_length (two_layers ! 1))
   \<and> \<not> fst (prompt_cache_overflow two_layers 5) ! 1"
proof -
  have len: "(0::nat) < length two_layers" "(1::nat) < length two_layers"
    by (simp_all add: two_layers_def)
  have val: "max_cache_length (two_layers ! 0) = 4" "max_cache_length (two_layers ! 1) = 8"
    by (simp_all add: two_layers_def)
  from prompt_cache_overflow_per_layer [of two_layers 5] len val show ?thesis
    by simp
qed

section \<open>Properties of Attention\<close>








text \<open>
  C2. \<open>compress_prompt\<close> calls the prompt compressor exactly when the prompt length
  is strictly greater than \<open>max_cache_length\<close>, and then returns what the compressor
  returns; when the prompt length is at most \<open>max_cache_length\<close> it returns positions,
  keys, values and attention unchanged and calls no compressor.
\<close>

theorem compress_prompt_iff_overflow:
  "(snd (compress_prompt prompt_compressor kv_cache input_pos k_val v_val attn) \<noteq> [])
      = (max_cache_length kv_cache < int (length input_pos))
   \<and> (max_cache_length kv_cache < int (length input_pos) \<longrightarrow>
        compress_prompt prompt_compressor kv_cache input_pos k_val v_val attn
          = (prompt_compressor input_pos k_val v_val attn,
             [Prompt_compressor input_pos k_val v_val attn]))
   \<and> (int (length input_pos) \<le> max_cache_length kv_cache \<longrightarrow>
        compress_prompt prompt_compressor kv_cache input_pos k_val v_val attn
          = ((input_pos, k_val, v_val, attn), []))"
  by (simp add: compress_prompt_def Let_def)

theorem compress_prompt_iff_overflow_witness:
  "max_cache_length demo_cache < int (length [0, 1, 2 :: int])
   \<and> compress_prompt keep_last2 demo_cache [0, 1, 2] [[5]] [[6]] None
        = (keep_last2 [0, 1, 2] [[5]] [[6]] None,
           [Prompt_compressor [0, 1, 2] [[5]] [[6]] None :: (nat, nat, unit, unit) call])
   \<and> int (length [0, 1 :: int]) \<le> max_cache_length demo_cache
   \<and> compress_prompt keep_last2 demo_cache [0, 1] [[5]] [[6]] None
        = (([0, 1], [[5]], [[6]], None), [] :: (nat, nat, unit, unit) call list)"
proof -
  have over: "max_cache_length demo_cache < int (length [0, 1, 2 :: int])"
    and fits: "int (length [0, 1 :: int]) \<le> max_cache_length demo_cache"
    by (simp_all add: demo_cache_def)
  have a: "compress_prompt keep_last2 demo_cache [0, 1, 2] [[5]] [[6]] None
        = (keep_last2 [0, 1, 2] [[5]] [[6]] None,
           [Prompt_compressor [0, 1, 2] [[5]] [[6]] None :: (nat, nat, unit, unit) call])"
    by (rule compress_prompt_iff_overflow [THEN conjunct2, THEN conjunct1, THEN mp, OF over])
  have b: "compress_prompt keep_last2 demo_cache [0, 1] [[5]] [[6]] None
        = (([0, 1], [[5]], [[6]], None), [] :: (nat, nat, unit, unit) call list)"
    by (rule compress_prompt_iff_overflow [THEN conjunct2, THEN conjunct2, THEN mp, OF fits])
  from over a fits b show ?thesis by blast
qed



end
